theory Spec2Isabelle
  imports Complex_Main
begin

section \<open>Data model of \<^verbatim>\<open>app/trc20wallet.py\<close>\<close>

text \<open>
  \<^verbatim>\<open>Decimal\<close> values are modelled as exact rationals (\<^typ>\<open>rat\<close>): sums, differences
  and comparisons are the mathematical ones. The rounding of Python's decimal context
  (28 significant digits by default) is not part of the model.
\<close>

record Account =
  addr :: string
  tokens :: rat
  currency :: rat
  bandwidth :: int
  bandwidth_limit :: int

text \<open>
  A \<^verbatim>\<open>Trc20Wallet\<close> holds the list \<^verbatim>\<open>self.accounts\<close> of Account objects. The objects
  are created once by \<^verbatim>\<open>refresh_accounts\<close>, one per key, and are mutated in place by the
  planner; an object is identified here by its position in that list. The chain client
  and the contract handle are external services and are not state of the model.
\<close>

record Trc20Wallet =
  symbol :: string
  accounts :: "Account list"

text \<open>A payout request \<^verbatim>\<open>{'dest': ..., 'amount': ...}\<close>; the key \<^verbatim>\<open>'amount'\<close> is the
  field \<open>p_amount\<close>, since a transfer has a key of that name too.\<close>

record payout =
  dest :: string
  p_amount :: rat

text \<open>A transfer \<^verbatim>\<open>{'src': copy(acc), 'dst': dst, 'amount': ..., 'debug': ...}\<close>. The
  field \<open>src\<close> is a value: the copy of the account taken when the transfer is recorded.\<close>

record transfer =
  src :: Account
  dst :: string
  amount :: rat
  debug :: string

record PayoutStrategy =
  wallet :: Trc20Wallet
  payout_list :: "payout list"
  steps :: "transfer list list"

text \<open>
  The source raises plain \<^verbatim>\<open>Exception\<close>s that differ by their message only. One
  constructor per \<^verbatim>\<open>raise\<close>:
  \<^item> \<open>RefreshExhausted\<close>: line 60, \<^verbatim>\<open>'CONCURRENT_MAX_RETRIES exeeded while processing ...'\<close>;
  \<^item> \<open>EmptyPayout\<close>: line 101, \<^verbatim>\<open>'Payout amount can not be 0'\<close>;
  \<^item> \<open>InsufficientFunds\<close>: line 103, \<^verbatim>\<open>'Not enough tokens to complete payout...'\<close>;
  \<^item> \<open>InvalidAmount\<close>: line 168, \<^verbatim>\<open>'Invalid amount porivded for payout...'\<close>;
  \<^item> \<open>AllocationOverrun\<close>: line 203, \<^verbatim>\<open>'Collected too much! ...'\<close>;
  \<^item> \<open>OutOfAccounts\<close>: line 210, \<^verbatim>\<open>'Out of accounts while collecting payout amount! ...'\<close>;
  \<^item> \<open>InsufficientSeedFunds\<close>: line 146, \<^verbatim>\<open>'Fee deposit account has not enought currency...'\<close>;
  \<^item> \<open>RecursionError\<close>: the interpreter's recursion limit, reached by the mutual
    recursion of \<^verbatim>\<open>generate_steps\<close> and \<^verbatim>\<open>estimate_fee\<close>.
\<close>

datatype error =
  RefreshExhausted
  | EmptyPayout
  | InsufficientFunds
  | InvalidAmount
  | AllocationOverrun
  | OutOfAccounts
  | InsufficientSeedFunds
  | RecursionError

text \<open>The configuration module is not part of the modelled files; the entries that the
  modelled code reads and that bear on its results are parameters.\<close>

record config =
  TX_FEE :: rat
  CONCURRENT_MAX_RETRIES :: nat

section \<open>Trc20Wallet: \<^verbatim>\<open>refresh_accounts\<close>\<close>

text \<open>
  The chain client and the contract are external. \<open>rd a n\<close> is what one pass through the
  \<^verbatim>\<open>try\<close> body of the inner function \<^verbatim>\<open>get\<close> reads for the address \<open>a\<close> after \<open>n\<close>
  failed passes: \<open>UnknownError\<close> when a call raises \<^verbatim>\<open>tronpy.exceptions.UnknownError\<close>;
  otherwise the contract's \<^verbatim>\<open>balanceOf\<close>, an unsigned integer of the token's smallest
  unit, with the account's native balance and its \<^verbatim>\<open>freeNetUsed\<close> (0 when the entry is
  absent), or with \<open>None\<close> when the client raises \<^verbatim>\<open>AddressNotFound\<close> for them.
\<close>

datatype fetch = UnknownError | Fetched nat "(rat \<times> int) option"

type_synonym chain_read = "string \<Rightarrow> nat \<Rightarrow> fetch"

text \<open>The inner function \<^verbatim>\<open>get\<close> (lines 44-60), entered with \<open>retries = 0\<close>;
  \<^verbatim>\<open>Account.bandwidth_limit\<close> is the default 1500 of the class.\<close>

function get :: "chain_read \<Rightarrow> nat \<Rightarrow> nat \<Rightarrow> string \<Rightarrow> nat \<Rightarrow> error + Account" where
  "get rd max_retries precision a retries =
     (if retries < max_retries then
        (case rd a retries of
           Fetched balance resources \<Rightarrow>
             (let balance_tokens = of_nat balance / 10 ^ precision in
              case resources of
                Some (balance_currency, freeNetUsed) \<Rightarrow>
                  Inr \<lparr>addr = a, tokens = balance_tokens, currency = balance_currency,
                       bandwidth = 1500 - freeNetUsed, bandwidth_limit = 1500\<rparr>
              | None \<Rightarrow>
                  Inr \<lparr>addr = a, tokens = balance_tokens, currency = 0, bandwidth = 0,
                       bandwidth_limit = 1500\<rparr>)
         | UnknownError \<Rightarrow> get rd max_retries precision a (retries + 1))
      else Inl RefreshExhausted)"
  by pat_completeness auto
termination
  by (relation "measure (\<lambda>(rd, max_retries, precision, a, retries). max_retries - retries)") auto

declare get.simps [simp del]

text \<open>\<^verbatim>\<open>list(executor.map(get, public_keys))\<close>: the results in the order of the keys, or
  the exception of the first key that has one.\<close>

fun get_all :: "chain_read \<Rightarrow> nat \<Rightarrow> nat \<Rightarrow> string list \<Rightarrow> error + Account list" where
  "get_all rd max_retries precision [] = Inr []"
| "get_all rd max_retries precision (a # public_keys) =
     (case get rd max_retries precision a 0 of
        Inl e \<Rightarrow> Inl e
      | Inr acc \<Rightarrow>
          (case get_all rd max_retries precision public_keys of
             Inl e \<Rightarrow> Inl e
           | Inr accs \<Rightarrow> Inr (acc # accs)))"

text \<open>\<^verbatim>\<open>accounts.sort(key=lambda account: account.tokens, reverse=True)\<close>: descending,
  and stable (accounts with equal balances keep their order).\<close>

definition refresh_accounts :: "chain_read \<Rightarrow> config \<Rightarrow> nat \<Rightarrow> string list \<Rightarrow> error + Account list" where
  "refresh_accounts rd cfg precision public_keys =
     (case get_all rd (CONCURRENT_MAX_RETRIES cfg) precision public_keys of
        Inl e \<Rightarrow> Inl e
      | Inr accs \<Rightarrow> Inr (rev (sort_key tokens (rev accs))))"

section \<open>Trc20Wallet: derived views\<close>

text \<open>\<^verbatim>\<open>Trc20Wallet.tokens\<close>: \<^verbatim>\<open>sum([account.tokens for account in self.accounts])\<close>.\<close>

definition wallet_tokens :: "Trc20Wallet \<Rightarrow> rat" where
  "wallet_tokens w = sum_list (map tokens (accounts w))"

text \<open>
  \<^verbatim>\<open>Trc20Wallet.accounts_with_tokens\<close>:
  \<^verbatim>\<open>list(filter(lambda acc: acc.tokens > 0, self.accounts))\<close>. The result is a new list of
  references to the same Account objects, in the order of \<^verbatim>\<open>self.accounts\<close>; it is the
  list of their positions here. It is computed once when a \<^verbatim>\<open>for\<close> loop starts.
\<close>

definition accounts_with_tokens :: "Account list \<Rightarrow> nat list" where
  "accounts_with_tokens accs = filter (\<lambda>i. tokens (accs ! i) > 0) [0..<length accs]"

section \<open>PayoutStrategy\<close>

subsection \<open>Construction\<close>




subsection \<open>One request: \<^verbatim>\<open>step\<close>\<close>

text \<open>
  The three \<^verbatim>\<open>for acc in self.wallet.accounts_with_tokens\<close> statements of \<^verbatim>\<open>step\<close>. Each
  walks the list of references computed at its start, reads the object it visits from
  the store and writes the object back.

  First loop (lines 170-175): the first account whose balance equals the amount.
\<close>

fun exact_match :: "rat \<Rightarrow> nat list \<Rightarrow> Account list \<Rightarrow> nat option" where
  "exact_match amt [] accs = None"
| "exact_match amt (i # refs) accs =
     (if tokens (accs ! i) = amt then Some i else exact_match amt refs accs)"

text \<open>Second loop (lines 179-181): every account gives its whole balance.\<close>

fun sweep :: "string \<Rightarrow> nat list \<Rightarrow> transfer list \<Rightarrow> Account list \<Rightarrow> transfer list \<times> Account list" where
  "sweep d [] transfers accs = (transfers, accs)"
| "sweep d (i # refs) transfers accs =
     (let acc = accs ! i in
      sweep d refs
        (transfers @ [\<lparr>src = acc, dst = d, amount = tokens acc, debug = ''all to 1''\<rparr>])
        (accs[i := acc\<lparr>tokens := 0\<rparr>]))"

text \<open>
  Third loop (lines 187-204) with the test after it (lines 206-212). The result is the
  outcome (the transfers to append, or the exception) and the store as the loop leaves
  it: an exception does not undo the writes made before it.
\<close>

fun collect :: "string \<Rightarrow> rat \<Rightarrow> nat list \<Rightarrow> rat \<Rightarrow> transfer list \<Rightarrow> Account list
    \<Rightarrow> (error + transfer list) \<times> Account list" where
  "collect d amt [] collected_amount transfers accs =
     (if collected_amount = amt then (Inr transfers, accs) else (Inl OutOfAccounts, accs))"
| "collect d amt (i # refs) collected_amount transfers accs =
     (let acc = accs ! i in
      if collected_amount = amt then (Inr transfers, accs)
      else if collected_amount < amt then
        (let to_collect = amt - collected_amount in
         if tokens acc > to_collect then
           collect d amt refs (collected_amount + to_collect)
             (transfers @ [\<lparr>src = acc, dst = d, amount = to_collect, debug = ''acc partial''\<rparr>])
             (accs[i := acc\<lparr>tokens := tokens acc - to_collect\<rparr>])
         else
           collect d amt refs (collected_amount + tokens acc)
             (transfers @ [\<lparr>src = acc, dst = d, amount = tokens acc, debug = ''acc full''\<rparr>])
             (accs[i := acc\<lparr>tokens := 0\<rparr>]))
      else (Inl AllocationOverrun, accs))"

text \<open>Writing the store back and \<^verbatim>\<open>self.steps.append(transfers)\<close>.\<close>

definition set_accounts :: "Account list \<Rightarrow> PayoutStrategy \<Rightarrow> PayoutStrategy" where
  "set_accounts accs s = s\<lparr>wallet := (wallet s)\<lparr>accounts := accs\<rparr>\<rparr>"

definition append_steps :: "transfer list \<Rightarrow> PayoutStrategy \<Rightarrow> PayoutStrategy" where
  "append_steps transfers s = s\<lparr>steps := steps s @ [transfers]\<rparr>"

definition step :: "string \<Rightarrow> rat \<Rightarrow> PayoutStrategy \<Rightarrow> (error + transfer list) \<times> PayoutStrategy" where
  "step d amt s =
     (let accs = accounts (wallet s) in
      if amt \<le> 0 then (Inl InvalidAmount, s)
      else
        (case exact_match amt (accounts_with_tokens accs) accs of
           Some i \<Rightarrow>
             (let acc = accs ! i;
                  transfers = [\<lparr>src = acc, dst = d, amount = amt, debug = ''1 to 1''\<rparr>]
              in (Inr transfers,
                  append_steps transfers
                    (set_accounts (accs[i := acc\<lparr>tokens := tokens acc - amt\<rparr>]) s)))
         | None \<Rightarrow>
             if amt = wallet_tokens (wallet s) then
               (case sweep d (accounts_with_tokens accs) [] accs of
                  (transfers, accs') \<Rightarrow>
                    (Inr transfers, append_steps transfers (set_accounts accs' s)))
             else
               (case collect d amt (accounts_with_tokens accs) 0 [] accs of
                  (Inr transfers, accs') \<Rightarrow>
                    (Inr transfers, append_steps transfers (set_accounts accs' s))
                | (Inl e, accs') \<Rightarrow> (Inl e, set_accounts accs' s))))"

subsection \<open>The whole list: \<^verbatim>\<open>generate_steps\<close> and \<^verbatim>\<open>estimate_fee\<close>\<close>

text \<open>The loop of \<^verbatim>\<open>generate_steps\<close> (lines 106-111): the first exception ends it.\<close>

fun run_payouts :: "payout list \<Rightarrow> PayoutStrategy \<Rightarrow> error option \<times> PayoutStrategy" where
  "run_payouts [] s = (None, s)"
| "run_payouts (p # ps) s =
     (case step (dest p) (p_amount p) s of
        (Inl e, s') \<Rightarrow> (Some e, s')
      | (Inr transfer_list, s') \<Rightarrow> run_payouts ps s')"

text \<open>The result \<^verbatim>\<open>{'accounts_num': ..., 'fee': ...}\<close> of \<^verbatim>\<open>estimate_fee\<close>.\<close>

record fee_estimate =
  accounts_num :: nat
  fee :: rat

text \<open>
  \<^verbatim>\<open>generate_steps\<close> calls \<^verbatim>\<open>self.estimate_fee()\<close> for its log line (line 115), and
  \<^verbatim>\<open>estimate_fee\<close> calls \<^verbatim>\<open>self.generate_steps()\<close> when \<^verbatim>\<open>self.steps\<close> is empty
  (lines 123-124). The first argument is the number of call frames left before the
  interpreter raises \<^verbatim>\<open>RecursionError\<close>. The other log lines have no effect.
\<close>

fun generate_steps :: "nat \<Rightarrow> config \<Rightarrow> PayoutStrategy \<Rightarrow> (error + transfer list list) \<times> PayoutStrategy"
  and estimate_fee :: "nat \<Rightarrow> config \<Rightarrow> PayoutStrategy \<Rightarrow> (error + fee_estimate) \<times> PayoutStrategy" where
  "generate_steps 0 cfg s = (Inl RecursionError, s)"
| "generate_steps (Suc depth) cfg s =
     (case run_payouts (payout_list s) s of
        (Some e, s') \<Rightarrow> (Inl e, s')
      | (None, s') \<Rightarrow>
          (case estimate_fee depth cfg s' of
             (Inl e, s'') \<Rightarrow> (Inl e, s'')
           | (Inr logged, s'') \<Rightarrow> (Inr (steps s''), s'')))"
| "estimate_fee 0 cfg s = (Inl RecursionError, s)"
| "estimate_fee (Suc depth) cfg s =
     (case (if steps s = [] then generate_steps depth cfg s else (Inr (steps s), s)) of
        (Inl e, s') \<Rightarrow> (Inl e, s')
      | (Inr plan, s') \<Rightarrow>
          (let accounts_num = length (concat (steps s'));
               activation_and_transfer_fee = 2;
               fee = of_nat accounts_num * (TX_FEE cfg + activation_and_transfer_fee)
           in (Inr \<lparr>accounts_num = accounts_num, fee = fee\<rparr>, s')))"

subsection \<open>\<^verbatim>\<open>seed_payout_fees\<close>\<close>

text \<open>
  The chain client is external. A native transfer handed to it is a value of
  \<open>trx_transfer\<close>; \<open>chain k t\<close> is the outcome of building, signing and broadcasting the
  transfer \<open>t\<close> of the \<open>k\<close>-th element of the list and waiting for it: the transaction
  id, or \<open>None\<close> when any of these raises.
\<close>

record trx_transfer =
  trx_from :: string
  trx_to :: string
  trx_amount :: int

type_synonym chain = "nat \<Rightarrow> trx_transfer \<Rightarrow> string option"

text \<open>The result \<^verbatim>\<open>{'addr': acc, 'txid': txn.txid}\<close> of one seeding.\<close>

record seed_result =
  r_addr :: Account
  txid :: string

text \<open>\<^verbatim>\<open>int(...)\<close> of a Decimal truncates towards zero.\<close>

definition py_int :: "rat \<Rightarrow> int" where
  "py_int q = (if 0 \<le> q then \<lfloor>q\<rfloor> else \<lceil>q\<rceil>)"

text \<open>Lines 140-142: one entry per transfer of the plan whose source copy is below the
  fee, in the order of the plan.\<close>

definition accounts_need_seeding :: "config \<Rightarrow> PayoutStrategy \<Rightarrow> Account list" where
  "accounts_need_seeding cfg s =
     map src (filter (\<lambda>t. currency (src t) < TX_FEE cfg) (concat (steps s)))"

definition seed_request :: "config \<Rightarrow> string \<Rightarrow> Account \<Rightarrow> trx_transfer" where
  "seed_request cfg fee_deposit_public acc =
     (let amount_to_seed = TX_FEE cfg - currency acc in
      \<lparr>trx_from = fee_deposit_public, trx_to = addr acc,
       trx_amount = py_int (amount_to_seed * 1000000)\<rparr>)"

text \<open>The inner function \<^verbatim>\<open>seed\<close> (lines 148-160): after the \<^verbatim>\<open>except\<close> block the
  function ends without a \<^verbatim>\<open>return\<close>, so its value is \<^verbatim>\<open>None\<close>.\<close>

definition seed :: "chain \<Rightarrow> config \<Rightarrow> string \<Rightarrow> nat \<Rightarrow> Account \<Rightarrow> seed_result option" where
  "seed ch cfg fee_deposit_public k acc =
     (case ch k (seed_request cfg fee_deposit_public acc) of
        Some tx \<Rightarrow> Some \<lparr>r_addr = acc, txid = tx\<rparr>
      | None \<Rightarrow> None)"

text \<open>
  \<^verbatim>\<open>seed_payout_fees\<close>, given the balance read for the fee-deposit address. The result
  is the returned list (or the exception) and the transfers handed to the chain
  client. \<^verbatim>\<open>executor.map\<close> returns the results in the order of its input; the order in
  which the workers run is not modelled.
\<close>

definition seed_payout_fees ::
    "chain \<Rightarrow> config \<Rightarrow> string \<Rightarrow> rat \<Rightarrow> PayoutStrategy
      \<Rightarrow> (error + seed_result option list) \<times> trx_transfer list" where
  "seed_payout_fees ch cfg fee_deposit_public fee_deposit_account_balance s =
     (let need = accounts_need_seeding cfg s;
          need_currency = of_nat (length need) * TX_FEE cfg
      in if fee_deposit_account_balance < need_currency then (Inl InsufficientSeedFunds, [])
         else (Inr (map (\<lambda>(k, acc). seed ch cfg fee_deposit_public k acc) (enumerate 0 need)),
               map (seed_request cfg fee_deposit_public) need))"

section \<open>Vocabulary of the properties\<close>

text \<open>The fields of an Account other than \<open>tokens\<close>.\<close>

definition other_fields :: "Account \<Rightarrow> string \<times> rat \<times> int \<times> int" where
  "other_fields a = (addr a, currency a, bandwidth a, bandwidth_limit a)"


text \<open>The ledger of the scenarios: A holds 100 tokens, B holds 60, C holds 40.\<close>

definition acc_A :: Account where
  "acc_A = \<lparr>addr = ''A'', tokens = 100, currency = 0, bandwidth = 0, bandwidth_limit = 1500\<rparr>"

definition acc_B :: Account where
  "acc_B = \<lparr>addr = ''B'', tokens = 60, currency = 5, bandwidth = 0, bandwidth_limit = 1500\<rparr>"

definition acc_C :: Account where
  "acc_C = \<lparr>addr = ''C'', tokens = 40, currency = 0, bandwidth = 0, bandwidth_limit = 1500\<rparr>"

definition wallet_ABC :: Trc20Wallet where
  "wallet_ABC = \<lparr>symbol = ''USDT'', accounts = [acc_A, acc_B, acc_C]\<rparr>"

definition strategy_ABC :: "payout list \<Rightarrow> PayoutStrategy" where
  "strategy_ABC pl = \<lparr>wallet = wallet_ABC, payout_list = pl, steps = []\<rparr>"

definition two_requests :: "payout list" where
  "two_requests = [\<lparr>dest = ''X'', p_amount = 130\<rparr>, \<lparr>dest = ''Y'', p_amount = 30\<rparr>]"

definition plan_ABC :: "transfer list list" where
  "plan_ABC =
     [ [\<lparr>src = acc_A, dst = ''X'', amount = 100, debug = ''acc full''\<rparr>,
       \<lparr>src = acc_B, dst = ''X'', amount = 30, debug = ''acc partial''\<rparr>],
      [\<lparr>src = acc_B\<lparr>tokens := 30\<rparr>, dst = ''Y'', amount = 30, debug = ''1 to 1''\<rparr>] ]"

definition cfg_fee_10 :: config where
  "cfg_fee_10 = \<lparr>TX_FEE = 10, CONCURRENT_MAX_RETRIES = 3\<rparr>"

text \<open>The state that planning \<open>two_requests\<close> on the ledger leaves: A and B are empty.\<close>

definition planned_ABC :: PayoutStrategy where
  "planned_ABC =
     \<lparr>wallet = \<lparr>symbol = ''USDT'', accounts = [acc_A\<lparr>tokens := 0\<rparr>, acc_B\<lparr>tokens := 0\<rparr>, acc_C]\<rparr>,
      payout_list = two_requests, steps = plan_ABC\<rparr>"

text \<open>A chain client that confirms every transfer, and one on which every transfer fails.\<close>

definition chain_accepts :: chain where
  "chain_accepts k t = Some ''txid''"

definition chain_rejects :: chain where
  "chain_rejects k t = None"

definition chain_rejects_B :: chain where
  "chain_rejects_B k t = (if trx_to t = ''B'' then None else Some ''txid'')"

text \<open>A payout list with a negative total.\<close>

definition negative_request :: "payout list" where
  "negative_request = [\<lparr>dest = ''X'', p_amount = - 5\<rparr>]"

text \<open>
  The fee of the specification, in its words: \<open>fee = transferCount * (perTransferFee +
  activationFee)\<close>, both constants being configuration inputs.
\<close>

definition spec_fee :: "nat \<Rightarrow> rat \<Rightarrow> rat \<Rightarrow> rat" where
  "spec_fee transferCount perTransferFee activationFee =
     of_nat transferCount * (perTransferFee + activationFee)"

text \<open>
  The seeding precondition of the specification, in its words: the distinct source
  accounts across all transfers of the plan whose native balance is below the fee
  threshold (an account is its address with its native balance), and the sum of their
  shortfalls \<open>feeThreshold - nativeBalance\<close>.
\<close>

definition spec_under_funded :: "config \<Rightarrow> PayoutStrategy \<Rightarrow> (string \<times> rat) list" where
  "spec_under_funded cfg s =
     remdups (map (\<lambda>t. (addr (src t), currency (src t)))
                  (filter (\<lambda>t. currency (src t) < TX_FEE cfg) (concat (steps s))))"

definition spec_sum_of_shortfalls :: "config \<Rightarrow> PayoutStrategy \<Rightarrow> rat" where
  "spec_sum_of_shortfalls cfg s =
     sum_list (map (\<lambda>(a, native). TX_FEE cfg - native) (spec_under_funded cfg s))"


section \<open>Properties\<close>

subsection \<open>The shape of \<^verbatim>\<open>step\<close>\<close>

lemma step_accounts_cases:
  "accounts (wallet (set_accounts accs s)) = accs"
  "accounts (wallet (append_steps ts s)) = accounts (wallet s)"
  by (simp_all add: set_accounts_def append_steps_def)

lemma step_cases [case_names Invalid Exact Sweep Collected Failed]:
  assumes "amt \<le> 0 \<Longrightarrow> step d amt s = (Inl InvalidAmount, s) \<Longrightarrow> P"
    and "\<And>i. 0 < amt \<Longrightarrow>
          exact_match amt (accounts_with_tokens (accounts (wallet s))) (accounts (wallet s)) = Some i \<Longrightarrow>
          step d amt s =
            (Inr [\<lparr>src = accounts (wallet s) ! i, dst = d, amount = amt, debug = ''1 to 1''\<rparr>],
             append_steps [\<lparr>src = accounts (wallet s) ! i, dst = d, amount = amt, debug = ''1 to 1''\<rparr>]
               (set_accounts ((accounts (wallet s))
                  [i := (accounts (wallet s) ! i)\<lparr>tokens := tokens (accounts (wallet s) ! i) - amt\<rparr>]) s)) \<Longrightarrow> P"
    and "\<And>ts accs'. 0 < amt \<Longrightarrow>
          exact_match amt (accounts_with_tokens (accounts (wallet s))) (accounts (wallet s)) = None \<Longrightarrow>
          amt = wallet_tokens (wallet s) \<Longrightarrow>
          sweep d (accounts_with_tokens (accounts (wallet s))) [] (accounts (wallet s)) = (ts, accs') \<Longrightarrow>
          step d amt s = (Inr ts, append_steps ts (set_accounts accs' s)) \<Longrightarrow> P"
    and "\<And>ts accs'. 0 < amt \<Longrightarrow>
          exact_match amt (accounts_with_tokens (accounts (wallet s))) (accounts (wallet s)) = None \<Longrightarrow>
          amt \<noteq> wallet_tokens (wallet s) \<Longrightarrow>
          collect d amt (accounts_with_tokens (accounts (wallet s))) 0 [] (accounts (wallet s)) = (Inr ts, accs') \<Longrightarrow>
          step d amt s = (Inr ts, append_steps ts (set_accounts accs' s)) \<Longrightarrow> P"
    and "\<And>e accs'. 0 < amt \<Longrightarrow>
          exact_match amt (accounts_with_tokens (accounts (wallet s))) (accounts (wallet s)) = None \<Longrightarrow>
          amt \<noteq> wallet_tokens (wallet s) \<Longrightarrow>
          collect d amt (accounts_with_tokens (accounts (wallet s))) 0 [] (accounts (wallet s)) = (Inl e, accs') \<Longrightarrow>
          step d amt s = (Inl e, set_accounts accs' s) \<Longrightarrow> P"
  shows P
proof (cases "amt \<le> 0")
  case True
  then show ?thesis using assms(1) by (simp add: step_def)
next
  case pos: False
  show ?thesis
  proof (cases "exact_match amt (accounts_with_tokens (accounts (wallet s))) (accounts (wallet s))")
    case (Some i)
    then show ?thesis using pos assms(2)[of i] by (simp add: step_def Let_def)
  next
    case None
    show ?thesis
    proof (cases "amt = wallet_tokens (wallet s)")
      case True
      obtain ts accs' where sw:
        "sweep d (accounts_with_tokens (accounts (wallet s))) [] (accounts (wallet s)) = (ts, accs')"
        by (cases "sweep d (accounts_with_tokens (accounts (wallet s))) [] (accounts (wallet s))")
      have "step d amt s = (Inr ts, append_steps ts (set_accounts accs' s))"
        using pos None True sw by (simp add: step_def Let_def)
      then show ?thesis using pos None True sw assms(3)[of ts accs'] by simp
    next
      case False
      obtain r accs' where co:
        "collect d amt (accounts_with_tokens (accounts (wallet s))) 0 [] (accounts (wallet s)) = (r, accs')"
        by (cases "collect d amt (accounts_with_tokens (accounts (wallet s))) 0 [] (accounts (wallet s))")
      show ?thesis
      proof (cases r)
        case (Inl e)
        have "step d amt s = (Inl e, set_accounts accs' s)"
          using pos None False co Inl by (simp add: step_def Let_def)
        then show ?thesis using pos None False co Inl assms(5)[of e accs'] by simp
      next
        case (Inr ts)
        have "step d amt s = (Inr ts, append_steps ts (set_accounts accs' s))"
          using pos None False co Inr by (simp add: step_def Let_def)
        then show ?thesis using pos None False co Inr assms(4)[of ts accs'] by simp
      qed
    qed
  qed
qed

subsection \<open>Frame: only \<open>tokens\<close> is written\<close>

lemma other_fields_tokens_update: "other_fields (a\<lparr>tokens := x\<rparr>) = other_fields a"
  by (simp add: other_fields_def)

lemma map_other_fields_update:
  "map other_fields (accs[i := (accs ! i)\<lparr>tokens := x\<rparr>]) = map other_fields accs"
proof (cases "i < length accs")
  case True
  have "map other_fields (accs[i := (accs ! i)\<lparr>tokens := x\<rparr>])
        = (map other_fields accs)[i := other_fields (accs ! i)]"
    by (simp add: map_update other_fields_tokens_update)
  also have "\<dots> = (map other_fields accs)[i := (map other_fields accs) ! i]"
    using True by simp
  also have "\<dots> = map other_fields accs"
    by (rule list_update_id)
  finally show ?thesis .
next
  case False
  then show ?thesis by (simp add: list_update_beyond)
qed

lemma sweep_other_fields:
  "map other_fields (snd (sweep d refs ts accs)) = map other_fields accs"
  by (induction refs arbitrary: ts accs) (simp_all add: Let_def map_other_fields_update)

lemma collect_other_fields:
  "map other_fields (snd (collect d amt refs c ts accs)) = map other_fields accs"
  by (induction refs arbitrary: c ts accs) (simp_all add: Let_def map_other_fields_update)

lemma step_other_fields:
  "map other_fields (accounts (wallet (snd (step d amt s)))) = map other_fields (accounts (wallet s))"
proof (cases d amt s rule: step_cases)
  case Invalid
  then show ?thesis by simp
next
  case (Exact i)
  then show ?thesis by (simp add: step_accounts_cases map_other_fields_update)
next
  case (Sweep ts accs')
  then show ?thesis
    using sweep_other_fields[of d "accounts_with_tokens (accounts (wallet s))" "[]" "accounts (wallet s)"]
    by (simp add: step_accounts_cases)
next
  case (Collected ts accs')
  then show ?thesis
    using collect_other_fields[of d amt "accounts_with_tokens (accounts (wallet s))" 0 "[]" "accounts (wallet s)"]
    by (simp add: step_accounts_cases)
next
  case (Failed e accs')
  then show ?thesis
    using collect_other_fields[of d amt "accounts_with_tokens (accounts (wallet s))" 0 "[]" "accounts (wallet s)"]
    by (simp add: step_accounts_cases)
qed

lemma run_payouts_other_fields:
  "map other_fields (accounts (wallet (snd (run_payouts pl s)))) = map other_fields (accounts (wallet s))"
proof (induction pl arbitrary: s)
  case Nil
  then show ?case by simp
next
  case (Cons p ps)
  show ?case
  proof (cases "step (dest p) (p_amount p) s")
    case (Pair r s1)
    have s1: "map other_fields (accounts (wallet s1)) = map other_fields (accounts (wallet s))"
      using step_other_fields[of "dest p" "p_amount p" s] Pair by simp
    show ?thesis
    proof (cases r)
      case (Inl e)
      then show ?thesis using Pair s1 by simp
    next
      case (Inr ts)
      then show ?thesis using Pair s1 Cons.IH[of s1] by simp
    qed
  qed
qed

lemma generate_estimate_other_fields:
  "map other_fields (accounts (wallet (snd (generate_steps depth cfg s)))) = map other_fields (accounts (wallet s))"
  "map other_fields (accounts (wallet (snd (estimate_fee depth cfg s)))) = map other_fields (accounts (wallet s))"
proof (induction depth cfg s rule: generate_steps_estimate_fee.induct)
  case (1 cfg s)
  then show ?case by simp
next
  case (2 depth cfg s)
  obtain r s1 where rp: "run_payouts (payout_list s) s = (r, s1)" by (cases "run_payouts (payout_list s) s")
  have s1: "map other_fields (accounts (wallet s1)) = map other_fields (accounts (wallet s))"
    using run_payouts_other_fields[of "payout_list s" s] rp by simp
  show ?case
  proof (cases r)
    case None
    obtain r2 s2 where ef: "estimate_fee depth cfg s1 = (r2, s2)" by (cases "estimate_fee depth cfg s1")
    have "map other_fields (accounts (wallet s2)) = map other_fields (accounts (wallet s1))"
      using "2.IH"[OF rp[symmetric] None] ef by simp
    then show ?thesis using rp None ef s1 by (simp split: sum.splits)
  next
    case (Some e)
    then show ?thesis using rp s1 by simp
  qed
next
  case (3 cfg s)
  then show ?case by simp
next
  case (4 depth cfg s)
  show ?case
  proof (cases "steps s = []")
    case True
    obtain r s1 where g: "generate_steps depth cfg s = (r, s1)" by (cases "generate_steps depth cfg s")
    have "map other_fields (accounts (wallet s1)) = map other_fields (accounts (wallet s))"
      using "4.IH"[OF True] g by simp
    then show ?thesis using True g by (simp split: sum.splits add: Let_def)
  next
    case False
    then show ?thesis by (simp add: Let_def)
  qed
qed

text \<open>
  Claim C10. Every call of \<^verbatim>\<open>step\<close>, whatever its outcome (a returned group or an
  exception), leaves the wallet with the same number of accounts, each with the same
  \<open>addr\<close>, \<open>currency\<close>, \<open>bandwidth\<close> and \<open>bandwidth_limit\<close> as before; only \<open>tokens\<close>
  may differ. The same holds over a whole planning session (\<^verbatim>\<open>generate_steps\<close>) and
  over \<^verbatim>\<open>estimate_fee\<close>, which may start one.
\<close>

theorem step_mutates_only_tokens:
  "map other_fields (accounts (wallet (snd (step d amt s)))) = map other_fields (accounts (wallet s))
   \<and> map other_fields (accounts (wallet (snd (generate_steps depth cfg s))))
       = map other_fields (accounts (wallet s))
   \<and> map other_fields (accounts (wallet (snd (estimate_fee depth cfg s))))
       = map other_fields (accounts (wallet s))"
  by (simp only: step_other_fields generate_estimate_other_fields simp_thms)

subsection \<open>The counter of the third loop never passes the amount\<close>







subsection \<open>Every group sums to the requested amount\<close>





lemma accounts_with_tokens_distinct: "distinct (accounts_with_tokens accs)"
  by (simp add: accounts_with_tokens_def)

lemma accounts_with_tokens_set:
  "i \<in> set (accounts_with_tokens accs) \<longleftrightarrow> i < length accs \<and> 0 < tokens (accs ! i)"
  by (auto simp: accounts_with_tokens_def)



lemma exact_match_Some: "exact_match amt refs accs = Some i \<Longrightarrow> i \<in> set refs \<and> tokens (accs ! i) = amt"
  by (induction refs) (auto split: if_splits)

lemma exact_match_None: "exact_match amt refs accs = None \<Longrightarrow> i \<in> set refs \<Longrightarrow> tokens (accs ! i) \<noteq> amt"
  by (induction refs) (auto split: if_splits)


subsection \<open>Balances stay non-negative\<close>

text \<open>\<^verbatim>\<open>refresh_accounts\<close> builds a ledger without negative balances, in descending
  order; \<^verbatim>\<open>step\<close> keeps balances non-negative.\<close>

lemma get_nonneg: "get rd m p a r = Inr acc \<Longrightarrow> 0 \<le> tokens acc"
proof (induction rd m p a r rule: get.induct)
  case (1 rd m p a r)
  show ?case
  proof (cases "r < m")
    case True
    show ?thesis
    proof (cases "rd a r")
      case UnknownError
      then show ?thesis using True "1.prems" "1.IH" by (simp add: get.simps[of rd m p a r])
    next
      case (Fetched b res)
      then show ?thesis using True "1.prems"
        by (auto simp: get.simps[of rd m p a r] Let_def split: option.splits)
    qed
  next
    case False
    then show ?thesis using "1.prems" by (simp add: get.simps[of rd m p a r])
  qed
qed

lemma get_all_nonneg: "get_all rd m p ks = Inr accs \<Longrightarrow> \<forall>a\<in>set accs. 0 \<le> tokens a"
  by (induction ks arbitrary: accs) (auto split: sum.splits dest: get_nonneg)

lemma refresh_accounts_nonneg:
  "refresh_accounts rd cfg p ks = Inr accs \<Longrightarrow> \<forall>a\<in>set accs. 0 \<le> tokens a"
  by (auto simp: refresh_accounts_def split: sum.splits dest: get_all_nonneg)

lemma refresh_accounts_descending:
  "refresh_accounts rd cfg p ks = Inr accs \<Longrightarrow> sorted (rev (map tokens accs))"
  by (auto simp: refresh_accounts_def rev_map split: sum.splits)







subsection \<open>The scenarios, evaluated\<close>

lemmas scenario_defs =
  acc_A_def acc_B_def acc_C_def wallet_ABC_def strategy_ABC_def two_requests_def plan_ABC_def
  cfg_fee_10_def

lemmas step_unfold =
  step_def accounts_with_tokens_def wallet_tokens_def set_accounts_def append_steps_def Let_def



lemma step_130:
  "fst (step ''X'' 130 (strategy_ABC [])) =
     Inr [\<lparr>src = acc_A, dst = ''X'', amount = 100, debug = ''acc full''\<rparr>,
          \<lparr>src = acc_B, dst = ''X'', amount = 30, debug = ''acc partial''\<rparr>]"
  by (simp add: step_unfold scenario_defs)

subsection \<open>Claim C8\<close>



subsection \<open>Claim C1\<close>



lemma estimate_fee_keeps_plan:
  "steps s \<noteq> [] \<Longrightarrow>
   estimate_fee (Suc depth) cfg s =
     (Inr \<lparr>accounts_num = length (concat (steps s)),
           fee = of_nat (length (concat (steps s))) * (TX_FEE cfg + 2)\<rparr>, s)"
  by (simp add: Let_def)




subsection \<open>Claim C7\<close>

lemma sweep_sources:
  "distinct refs \<Longrightarrow>
   \<exists>new. fst (sweep d refs ts accs) = ts @ new
     \<and> (\<forall>t\<in>set new. \<exists>i\<in>set refs. src t = accs ! i \<and> amount t \<le> tokens (accs ! i))"
proof (induction refs arbitrary: ts accs)
  case Nil
  then show ?case by simp
next
  case (Cons i refs)
  let ?t = "\<lparr>src = accs ! i, dst = d, amount = tokens (accs ! i), debug = ''all to 1''\<rparr>"
  let ?accs = "accs[i := (accs ! i)\<lparr>tokens := 0\<rparr>]"
  from Cons.prems have d: "distinct refs" and ni: "i \<notin> set refs" by simp_all
  obtain new where new: "fst (sweep d refs (ts @ [?t]) ?accs) = (ts @ [?t]) @ new"
      "\<forall>t\<in>set new. \<exists>j\<in>set refs. src t = ?accs ! j \<and> amount t \<le> tokens (?accs ! j)"
    using Cons.IH[OF d, of "ts @ [?t]" ?accs] by blast
  have "\<forall>t\<in>set new. \<exists>j\<in>set refs. src t = accs ! j \<and> amount t \<le> tokens (accs ! j)"
  proof
    fix t assume "t \<in> set new"
    then obtain j where j: "j \<in> set refs" "src t = ?accs ! j" "amount t \<le> tokens (?accs ! j)"
      using new(2) by blast
    then have "j \<noteq> i" using ni by auto
    then have "?accs ! j = accs ! j" by simp
    then show "\<exists>j\<in>set refs. src t = accs ! j \<and> amount t \<le> tokens (accs ! j)" using j by auto
  qed
  then have "\<forall>t\<in>set (?t # new). \<exists>j\<in>set (i # refs). src t = accs ! j \<and> amount t \<le> tokens (accs ! j)"
    by auto
  moreover have "fst (sweep d (i # refs) ts accs) = ts @ (?t # new)"
    using new(1) by (simp add: Let_def)
  ultimately show ?case by blast
qed

lemma collect_sources:
  "distinct refs \<Longrightarrow> collect d amt refs c ts accs = (Inr ts', accs') \<Longrightarrow>
   \<exists>new. ts' = ts @ new
     \<and> (\<forall>t\<in>set new. \<exists>i\<in>set refs. src t = accs ! i \<and> amount t \<le> tokens (accs ! i))"
proof (induction refs arbitrary: c ts accs)
  case Nil
  then show ?case by (simp split: if_splits)
next
  case (Cons i refs)
  from Cons.prems have d: "distinct refs" and ni: "i \<notin> set refs" by simp_all
  show ?case
  proof (cases "c = amt")
    case True
    then show ?thesis using Cons.prems(2) by simp
  next
    case ne: False
    have lt: "c < amt" using Cons.prems(2) ne by (cases "c < amt") (simp_all add: Let_def)
    define x where "x = (if amt - c < tokens (accs ! i) then amt - c else tokens (accs ! i))"
    define tag where "tag = (if amt - c < tokens (accs ! i) then ''acc partial'' else ''acc full'')"
    define y where "y = (if amt - c < tokens (accs ! i) then tokens (accs ! i) - (amt - c) else 0)"
    let ?t = "\<lparr>src = accs ! i, dst = d, amount = x, debug = tag\<rparr>"
    let ?accs = "accs[i := (accs ! i)\<lparr>tokens := y\<rparr>]"
    have rec: "collect d amt refs (c + x) (ts @ [?t]) ?accs = (Inr ts', accs')"
      using Cons.prems(2) ne lt by (simp add: Let_def x_def tag_def y_def split: if_splits)
    have xle: "x \<le> tokens (accs ! i)" by (simp add: x_def)
    obtain new where new: "ts' = (ts @ [?t]) @ new"
        "\<forall>t\<in>set new. \<exists>j\<in>set refs. src t = ?accs ! j \<and> amount t \<le> tokens (?accs ! j)"
      using Cons.IH[OF d rec] by blast
    have "\<forall>t\<in>set new. \<exists>j\<in>set refs. src t = accs ! j \<and> amount t \<le> tokens (accs ! j)"
    proof
      fix t assume "t \<in> set new"
      then obtain j where j: "j \<in> set refs" "src t = ?accs ! j" "amount t \<le> tokens (?accs ! j)"
        using new(2) by blast
      then have "j \<noteq> i" using ni by auto
      then have "?accs ! j = accs ! j" by simp
      then show "\<exists>j\<in>set refs. src t = accs ! j \<and> amount t \<le> tokens (accs ! j)" using j by auto
    qed
    then have "\<forall>t\<in>set (?t # new). \<exists>j\<in>set (i # refs). src t = accs ! j \<and> amount t \<le> tokens (accs ! j)"
      using xle by auto
    moreover have "ts' = ts @ (?t # new)" using new(1) by simp
    ultimately show ?thesis by blast
  qed
qed

lemma step_sources:
  assumes "step d amt s = (Inr ts, s')"
  shows "\<forall>t\<in>set ts. \<exists>i\<in>set (accounts_with_tokens (accounts (wallet s))).
           src t = accounts (wallet s) ! i \<and> amount t \<le> tokens (accounts (wallet s) ! i)"
proof (cases d amt s rule: step_cases)
  case Invalid
  then show ?thesis using assms by simp
next
  case (Exact i)
  then show ?thesis using assms exact_match_Some[OF Exact(2)] by auto
next
  case (Sweep ts0 accs')
  then show ?thesis
    using assms sweep_sources[OF accounts_with_tokens_distinct, of d "accounts (wallet s)" "[]" "accounts (wallet s)"]
    by auto
next
  case (Collected ts0 accs')
  then show ?thesis
    using assms collect_sources[OF accounts_with_tokens_distinct Collected(4)] by auto
next
  case (Failed e accs')
  then show ?thesis using assms by simp
qed

text \<open>
  Claim C7. Every transfer of a group that \<^verbatim>\<open>step\<close> records has as \<open>src\<close> the copy of an
  account of the ledger as the call found it (no account is visited twice within one
  call, so this is the account's balance at the moment of the allocation, as left by
  the earlier calls of the session), and its amount is at most the balance of that copy.
\<close>

theorem step_amount_within_source_balance:
  assumes "step d amt s = (Inr ts, s')"
  shows "\<forall>t\<in>set ts. \<exists>i<length (accounts (wallet s)).
           src t = accounts (wallet s) ! i \<and> amount t \<le> tokens (src t)"
  using step_sources[OF assms] by (fastforce simp: accounts_with_tokens_set)


theorem step_amount_within_source_balance_witness:
  "fst (step ''X'' 130 (strategy_ABC [])) =
     Inr [\<lparr>src = acc_A, dst = ''X'', amount = 100, debug = ''acc full''\<rparr>,
          \<lparr>src = acc_B, dst = ''X'', amount = 30, debug = ''acc partial''\<rparr>]
   \<and> list_all (\<lambda>t. amount t \<le> tokens (src t))
       [\<lparr>src = acc_A, dst = ''X'', amount = 100, debug = ''acc full''\<rparr>,
        \<lparr>src = acc_B, dst = ''X'', amount = 30, debug = ''acc partial''\<rparr>]"
proof -
  have st: "step ''X'' 130 (strategy_ABC []) =
     (Inr [\<lparr>src = acc_A, dst = ''X'', amount = 100, debug = ''acc full''\<rparr>,
           \<lparr>src = acc_B, dst = ''X'', amount = 30, debug = ''acc partial''\<rparr>],
      snd (step ''X'' 130 (strategy_ABC [])))"
    using step_130 by (metis prod.collapse)
  from step_amount_within_source_balance[OF st]
  have "list_all (\<lambda>t. amount t \<le> tokens (src t))
       [\<lparr>src = acc_A, dst = ''X'', amount = 100, debug = ''acc full''\<rparr>,
        \<lparr>src = acc_B, dst = ''X'', amount = 30, debug = ''acc partial''\<rparr>]"
    by (simp only: list_all_iff) blast
  then show ?thesis using step_130 by simp
qed

subsection \<open>Claim C9\<close>

lemma exact_match_append:
  "exact_match amt (xs @ ys) accs =
     (case exact_match amt xs accs of Some i \<Rightarrow> Some i | None \<Rightarrow> exact_match amt ys accs)"
  by (induction xs) simp_all

lemma exact_match_no_match:
  "\<forall>i\<in>set xs. tokens (accs ! i) \<noteq> amt \<Longrightarrow> exact_match amt xs accs = None"
  by (induction xs) simp_all

lemma exact_match_first:
  assumes "k < length accs" and "tokens (accs ! k) = amt" and "0 < amt"
    and "\<forall>j<k. tokens (accs ! j) \<noteq> amt"
  shows "exact_match amt (accounts_with_tokens accs) accs = Some k"
proof -
  have split: "[0..<length accs] = [0..<k] @ k # [Suc k..<length accs]"
    using assms(1) by (metis upt_add_eq_append upt_conv_Cons le0 le_add_diff_inverse less_imp_le_nat plus_nat.add_0)
  have before: "exact_match amt (filter (\<lambda>i. 0 < tokens (accs ! i)) [0..<k]) accs = None"
    using assms(4) by (intro exact_match_no_match) simp
  show ?thesis
    unfolding accounts_with_tokens_def split
    using assms(2,3) before by (simp add: exact_match_append)
qed

text \<open>
  Claim C9. Let the amount be positive and let some account among the accounts with
  tokens hold exactly the amount. Then \<^verbatim>\<open>step\<close> returns a group of one transfer tagged
  \<^verbatim>\<open>'1 to 1'\<close> for the whole amount, whose source is the first account of the ledger's
  order with that balance (\<open>k\<close> below: no earlier account holds the amount), appends the
  group to the plan and leaves that account with no tokens and every other account as
  it was.
\<close>

theorem exact_match_single_step:
  assumes "0 < amt"
    and "\<exists>i\<in>set (accounts_with_tokens (accounts (wallet s))). tokens (accounts (wallet s) ! i) = amt"
  shows "\<exists>k<length (accounts (wallet s)).
           tokens (accounts (wallet s) ! k) = amt
         \<and> (\<forall>j<k. tokens (accounts (wallet s) ! j) \<noteq> amt)
         \<and> step d amt s =
             (Inr [\<lparr>src = accounts (wallet s) ! k, dst = d, amount = amt, debug = ''1 to 1''\<rparr>],
              s\<lparr>wallet := (wallet s)\<lparr>accounts :=
                   (accounts (wallet s))[k := (accounts (wallet s) ! k)\<lparr>tokens := 0\<rparr>]\<rparr>,
                steps := steps s @
                   [ [\<lparr>src = accounts (wallet s) ! k, dst = d, amount = amt, debug = ''1 to 1''\<rparr>] ]\<rparr>)"
proof -
  let ?accs = "accounts (wallet s)"
  let ?P = "\<lambda>i. i < length ?accs \<and> tokens (?accs ! i) = amt"
  have "\<exists>i. ?P i" using assms(2) by (auto simp: accounts_with_tokens_set)
  then obtain k where k: "?P k" "\<forall>j<k. \<not> ?P j"
    using exists_least_iff[of ?P] by blast
  have first: "\<forall>j<k. tokens (?accs ! j) \<noteq> amt" using k by auto
  have em: "exact_match amt (accounts_with_tokens ?accs) ?accs = Some k"
    using exact_match_first[of k ?accs amt] k(1) assms(1) first by simp
  have "step d amt s =
     (Inr [\<lparr>src = ?accs ! k, dst = d, amount = amt, debug = ''1 to 1''\<rparr>],
      s\<lparr>wallet := (wallet s)\<lparr>accounts := ?accs[k := (?accs ! k)\<lparr>tokens := 0\<rparr>]\<rparr>,
        steps := steps s @ [ [\<lparr>src = ?accs ! k, dst = d, amount = amt, debug = ''1 to 1''\<rparr>] ]\<rparr>)"
    using assms(1) em k(1) by (simp add: step_def Let_def set_accounts_def append_steps_def)
  then show ?thesis using k(1) first by blast
qed


theorem exact_match_single_step_witness:
  "step ''X'' 100 (strategy_ABC []) =
     (Inr [\<lparr>src = acc_A, dst = ''X'', amount = 100, debug = ''1 to 1''\<rparr>],
      \<lparr>wallet = \<lparr>symbol = ''USDT'', accounts = [acc_A\<lparr>tokens := 0\<rparr>, acc_B, acc_C]\<rparr>,
       payout_list = [],
       steps = [ [\<lparr>src = acc_A, dst = ''X'', amount = 100, debug = ''1 to 1''\<rparr>] ]\<rparr>)"
proof -
  have pos: "(0::rat) < 100" by simp
  have ex: "\<exists>i\<in>set (accounts_with_tokens (accounts (wallet (strategy_ABC [])))).
              tokens (accounts (wallet (strategy_ABC [])) ! i) = 100"
    by (simp add: accounts_with_tokens_def scenario_defs)
  obtain k where k: "k < length (accounts (wallet (strategy_ABC [])))"
      "tokens (accounts (wallet (strategy_ABC [])) ! k) = 100"
      "step ''X'' 100 (strategy_ABC []) =
             (Inr [\<lparr>src = accounts (wallet (strategy_ABC [])) ! k, dst = ''X'', amount = 100, debug = ''1 to 1''\<rparr>],
              (strategy_ABC [])\<lparr>wallet := (wallet (strategy_ABC []))\<lparr>accounts :=
                   (accounts (wallet (strategy_ABC [])))[k := (accounts (wallet (strategy_ABC [])) ! k)\<lparr>tokens := 0\<rparr>]\<rparr>,
                steps := steps (strategy_ABC []) @
                   [ [\<lparr>src = accounts (wallet (strategy_ABC [])) ! k, dst = ''X'', amount = 100, debug = ''1 to 1''\<rparr>] ]\<rparr>)"
    using exact_match_single_step[OF pos ex, of "''X''"] by blast
  have "k = 0"
    using k(1,2) by (auto simp: scenario_defs less_Suc_eq)
  then show ?thesis using k(3) by (simp add: scenario_defs)
qed

subsection \<open>More of the scenarios\<close>

lemmas scenario_defs3 =
  scenario_defs planned_ABC_def chain_accepts_def chain_rejects_def negative_request_def

lemma generate_two_requests_state:
  "snd (generate_steps (Suc (Suc 0)) cfg_fee_10 (strategy_ABC two_requests)) = planned_ABC"
  by (simp add: step_unfold scenario_defs3)

lemma tx_fee_10: "TX_FEE cfg_fee_10 = 10"
  by (simp add: cfg_fee_10_def)

lemma need_seeding_planned:
  "accounts_need_seeding cfg_fee_10 planned_ABC = [acc_A, acc_B, acc_B\<lparr>tokens := 30\<rparr>]"
  by (simp add: accounts_need_seeding_def scenario_defs3)

lemma spec_under_funded_planned:
  "spec_under_funded cfg_fee_10 planned_ABC = [(''A'', 0), (''B'', 5)]"
  by (simp add: spec_under_funded_def scenario_defs3)

subsection \<open>Claim C3\<close>

lemma estimate_fee_result:
  "estimate_fee depth cfg s = (Inr est, s') \<Longrightarrow>
   accounts_num est = length (concat (steps s'))
   \<and> fee est = of_nat (length (concat (steps s'))) * (TX_FEE cfg + 2)"
  by (cases depth) (auto simp: Let_def split: if_splits prod.splits sum.splits)

text \<open>
  Claim C3, as amended. \<^verbatim>\<open>estimate_fee\<close> on a state that holds a plan returns, without
  changing the state, \<open>accounts_num\<close> = the number \<open>N\<close> of transfers over all groups and
  \<open>fee = N * (TX_FEE + 2)\<close>: the per-transfer fee is the configuration entry \<^verbatim>\<open>TX_FEE\<close>
  and the activation fee is the literal 2 of line 128, for every value of \<^verbatim>\<open>TX_FEE\<close>.
  Whenever \<^verbatim>\<open>estimate_fee\<close> returns (also after planning first, for a state without a
  plan), its result is that of the plan it leaves in the state.
\<close>

theorem estimate_fee_formula:
  "(steps s \<noteq> [] \<longrightarrow>
      estimate_fee (Suc depth) cfg s =
        (Inr \<lparr>accounts_num = length (concat (steps s)),
              fee = spec_fee (length (concat (steps s))) (TX_FEE cfg) 2\<rparr>, s))
   \<and> (estimate_fee depth cfg s = (Inr est, s') \<longrightarrow>
        accounts_num est = length (concat (steps s'))
        \<and> fee est = spec_fee (length (concat (steps s'))) (TX_FEE cfg) 2)"
  using estimate_fee_keeps_plan[of s depth cfg] estimate_fee_result[of depth cfg s est s']
  by (simp add: spec_fee_def)

theorem estimate_fee_formula_witness:
  "estimate_fee (Suc 0) cfg_fee_10 planned_ABC = (Inr \<lparr>accounts_num = 3, fee = 36\<rparr>, planned_ABC)"
proof -
  have ne: "steps planned_ABC \<noteq> []" by (simp add: scenario_defs3)
  have n: "length (concat (steps planned_ABC)) = 3" by (simp add: scenario_defs3)
  have f: "spec_fee 3 (TX_FEE cfg_fee_10) 2 = 36" by (simp add: spec_fee_def scenario_defs3)
  from estimate_fee_formula[of planned_ABC 0 cfg_fee_10] ne
  have "estimate_fee (Suc 0) cfg_fee_10 planned_ABC =
        (Inr \<lparr>accounts_num = length (concat (steps planned_ABC)),
              fee = spec_fee (length (concat (steps planned_ABC))) (TX_FEE cfg_fee_10) 2\<rparr>, planned_ABC)"
    by blast
  then show ?thesis by (simp only: n f)
qed

text \<open>
  The claim as stated takes the activation fee from the configuration. For a configured
  activation fee of 3 and \<^verbatim>\<open>TX_FEE\<close> = 10 the formula of the specification gives 39 for
  the three transfers of the scenario; the code returns 36.
\<close>

theorem estimate_fee_activation_fee_counterexample:
  "fst (estimate_fee (Suc 0) cfg_fee_10 planned_ABC) = Inr \<lparr>accounts_num = 3, fee = 36\<rparr>
   \<and> spec_fee 3 (TX_FEE cfg_fee_10) 3 = 39
   \<and> fst (estimate_fee (Suc 0) cfg_fee_10 planned_ABC)
       \<noteq> Inr \<lparr>accounts_num = 3, fee = spec_fee 3 (TX_FEE cfg_fee_10) 3\<rparr>"
  by (simp add: spec_fee_def scenario_defs3 Let_def)

subsection \<open>Claim C4\<close>








subsection \<open>Claim C2\<close>

lemma sum_remdups_le:
  fixes g :: "'a \<Rightarrow> rat"
  shows "\<forall>y\<in>set ys. 0 \<le> g y \<Longrightarrow> sum_list (map g (remdups ys)) \<le> sum_list (map g ys)"
  by (induction ys) (auto simp: add_increasing)

lemma shortfalls_le_count:
  fixes F :: rat
  shows "\<forall>a\<in>set need. 0 \<le> currency a \<Longrightarrow>
         sum_list (map (\<lambda>a. F - currency a) need) \<le> of_nat (length need) * F"
  by (induction need) (auto simp: algebra_simps)

lemma spec_sum_le_need_currency:
  assumes "\<forall>t\<in>set (concat (steps s)). 0 \<le> currency (src t)"
  shows "spec_sum_of_shortfalls cfg s \<le> of_nat (length (accounts_need_seeding cfg s)) * TX_FEE cfg"
proof -
  let ?under = "filter (\<lambda>t. currency (src t) < TX_FEE cfg) (concat (steps s))"
  let ?pairs = "map (\<lambda>t. (addr (src t), currency (src t))) ?under"
  let ?g = "\<lambda>(a :: string, native). TX_FEE cfg - native"
  have pos: "\<forall>y\<in>set ?pairs. 0 \<le> ?g y" by auto
  have "spec_sum_of_shortfalls cfg s = sum_list (map ?g (remdups ?pairs))"
    by (simp add: spec_sum_of_shortfalls_def spec_under_funded_def)
  also have "\<dots> \<le> sum_list (map ?g ?pairs)"
    using pos by (rule sum_remdups_le)
  also have "\<dots> = sum_list (map (\<lambda>a. TX_FEE cfg - currency a) (accounts_need_seeding cfg s))"
    by (simp add: accounts_need_seeding_def comp_def)
  also have "\<dots> \<le> of_nat (length (accounts_need_seeding cfg s)) * TX_FEE cfg"
    using assms by (intro shortfalls_le_count) (auto simp: accounts_need_seeding_def)
  finally show ?thesis .
qed

text \<open>
  Claim C2, as amended. \<^verbatim>\<open>seed_payout_fees\<close> ends with \<open>InsufficientSeedFunds\<close> exactly
  when the balance of the fee-deposit address is below \<open>n * TX_FEE\<close>, where \<open>n\<close> is the
  number of transfers of the plan whose source copy has a native balance below
  \<^verbatim>\<open>TX_FEE\<close>; no transfer is handed to the chain client in that case. This bound is at
  least the sum of shortfalls of the specification when no native balance is negative,
  so a balance below the sum of shortfalls always ends so.
\<close>

theorem seed_precondition:
  "(fst (seed_payout_fees ch cfg fee_deposit_public balance s) = Inl InsufficientSeedFunds
      \<longleftrightarrow> balance < of_nat (length (accounts_need_seeding cfg s)) * TX_FEE cfg)
   \<and> (balance < of_nat (length (accounts_need_seeding cfg s)) * TX_FEE cfg \<longrightarrow>
        snd (seed_payout_fees ch cfg fee_deposit_public balance s) = [])
   \<and> ((\<forall>t\<in>set (concat (steps s)). 0 \<le> currency (src t)) \<and> balance < spec_sum_of_shortfalls cfg s \<longrightarrow>
        seed_payout_fees ch cfg fee_deposit_public balance s = (Inl InsufficientSeedFunds, []))"
proof -
  have "balance < of_nat (length (accounts_need_seeding cfg s)) * TX_FEE cfg"
    if "\<forall>t\<in>set (concat (steps s)). 0 \<le> currency (src t)" "balance < spec_sum_of_shortfalls cfg s"
    using spec_sum_le_need_currency[OF that(1), of cfg] that(2) by simp
  then show ?thesis
    by (auto simp: seed_payout_fees_def Let_def)
qed

theorem seed_precondition_witness:
  "seed_payout_fees chain_accepts cfg_fee_10 ''F'' 12 planned_ABC = (Inl InsufficientSeedFunds, [])
   \<and> spec_sum_of_shortfalls cfg_fee_10 planned_ABC = 15
   \<and> of_nat (length (accounts_need_seeding cfg_fee_10 planned_ABC)) * TX_FEE cfg_fee_10 = (30::rat)"
proof -
  have nn: "\<forall>t\<in>set (concat (steps planned_ABC)). 0 \<le> currency (src t)"
    by (simp add: scenario_defs3)
  have sm: "spec_sum_of_shortfalls cfg_fee_10 planned_ABC = 15"
    by (simp add: spec_sum_of_shortfalls_def spec_under_funded_planned tx_fee_10)
  have nc: "of_nat (length (accounts_need_seeding cfg_fee_10 planned_ABC)) * TX_FEE cfg_fee_10 = (30::rat)"
    by (simp add: need_seeding_planned tx_fee_10)
  have "seed_payout_fees chain_accepts cfg_fee_10 ''F'' 12 planned_ABC = (Inl InsufficientSeedFunds, [])"
    using seed_precondition[of chain_accepts cfg_fee_10 "''F''" 12 planned_ABC] nn sm by simp
  then show ?thesis using sm nc by simp
qed

text \<open>
  The claim as stated has the call fail only when the balance is below the sum of
  shortfalls. In the scenario the sum of shortfalls is 15 (10 for A, 5 for B); with a
  balance of 25 the call fails, since three transfers have an under-funded source and
  3 * 10 = 30.
\<close>

theorem seed_precondition_counterexample:
  "fst (seed_payout_fees chain_accepts cfg_fee_10 ''F'' 25 planned_ABC) = Inl InsufficientSeedFunds
   \<and> spec_sum_of_shortfalls cfg_fee_10 planned_ABC = 15
   \<and> \<not> (25 < spec_sum_of_shortfalls cfg_fee_10 planned_ABC)"
proof -
  have sm: "spec_sum_of_shortfalls cfg_fee_10 planned_ABC = 15"
    by (simp add: spec_sum_of_shortfalls_def spec_under_funded_planned tx_fee_10)
  have "fst (seed_payout_fees chain_accepts cfg_fee_10 ''F'' 25 planned_ABC) = Inl InsufficientSeedFunds"
    by (simp add: seed_payout_fees_def need_seeding_planned tx_fee_10)
  then show ?thesis using sm by simp
qed

subsection \<open>Claim C5\<close>

lemma sent_requests:
  "snd (seed_payout_fees ch cfg fee_deposit_public balance s) =
     (if balance < of_nat (length (accounts_need_seeding cfg s)) * TX_FEE cfg then []
      else map (seed_request cfg fee_deposit_public) (accounts_need_seeding cfg s))"
  by (simp add: seed_payout_fees_def Let_def)

lemma trx_to_seed_request: "trx_to (seed_request cfg fee_deposit_public acc) = addr acc"
  by (simp add: seed_request_def Let_def)

text \<open>
  Claim C5, as amended. \<^verbatim>\<open>seed_payout_fees\<close> hands the chain client one seeding
  transfer per transfer of the plan whose source copy has a native balance below
  \<^verbatim>\<open>TX_FEE\<close>, in the order of the plan (and none when it ends with
  \<open>InsufficientSeedFunds\<close>): an account that is the source of several such transfers is
  seeded once for each. Every seeding transfer goes to the address of such a source,
  so none goes to an account whose native balance meets the threshold.
\<close>

theorem seeding_only_under_funded_sources:
  "(\<forall>r\<in>set (snd (seed_payout_fees ch cfg fee_deposit_public balance s)).
       \<exists>t\<in>set (concat (steps s)). trx_to r = addr (src t) \<and> currency (src t) < TX_FEE cfg)
   \<and> (\<not> balance < of_nat (length (accounts_need_seeding cfg s)) * TX_FEE cfg \<longrightarrow>
        map trx_to (snd (seed_payout_fees ch cfg fee_deposit_public balance s))
          = map (\<lambda>t. addr (src t)) (filter (\<lambda>t. currency (src t) < TX_FEE cfg) (concat (steps s))))
   \<and> set (map trx_to (snd (seed_payout_fees ch cfg fee_deposit_public balance s)))
        \<subseteq> set (map fst (spec_under_funded cfg s))"
proof -
  have a: "\<forall>r\<in>set (snd (seed_payout_fees ch cfg fee_deposit_public balance s)).
       \<exists>t\<in>set (concat (steps s)). trx_to r = addr (src t) \<and> currency (src t) < TX_FEE cfg"
    by (auto simp: sent_requests accounts_need_seeding_def trx_to_seed_request)
  have b: "map trx_to (snd (seed_payout_fees ch cfg fee_deposit_public balance s))
          = map (\<lambda>t. addr (src t)) (filter (\<lambda>t. currency (src t) < TX_FEE cfg) (concat (steps s)))"
    if "\<not> balance < of_nat (length (accounts_need_seeding cfg s)) * TX_FEE cfg"
    using that by (simp add: sent_requests accounts_need_seeding_def trx_to_seed_request comp_def)
  have c: "set (map trx_to (snd (seed_payout_fees ch cfg fee_deposit_public balance s)))
        \<subseteq> set (map fst (spec_under_funded cfg s))"
    by (auto simp: sent_requests accounts_need_seeding_def trx_to_seed_request spec_under_funded_def
        image_iff intro!: bexI)
  show ?thesis using a b c by blast
qed

theorem seeding_only_under_funded_sources_witness:
  "map trx_to (snd (seed_payout_fees chain_accepts cfg_fee_10 ''F'' 30 planned_ABC)) = [''A'', ''B'', ''B'']
   \<and> map (\<lambda>t. (addr (src t), currency (src t))) (concat (steps planned_ABC))
       = [(''A'', 0), (''B'', 5), (''B'', 5)]"
proof -
  have ok: "\<not> (30::rat) < of_nat (length (accounts_need_seeding cfg_fee_10 planned_ABC)) * TX_FEE cfg_fee_10"
    by (simp add: need_seeding_planned tx_fee_10)
  from seeding_only_under_funded_sources[of chain_accepts cfg_fee_10 "''F''" 30 planned_ABC] ok
  have "map trx_to (snd (seed_payout_fees chain_accepts cfg_fee_10 ''F'' 30 planned_ABC))
          = map (\<lambda>t. addr (src t)) (filter (\<lambda>t. currency (src t) < TX_FEE cfg_fee_10) (concat (steps planned_ABC)))"
    by blast
  then show ?thesis by (simp add: scenario_defs3)
qed

text \<open>
  The claim as stated allows at most one seeding transfer per account. In the scenario
  B is the source of two transfers of the plan and is seeded twice.
\<close>

theorem seeding_twice_counterexample:
  "map trx_to (snd (seed_payout_fees chain_accepts cfg_fee_10 ''F'' 30 planned_ABC)) = [''A'', ''B'', ''B'']
   \<and> \<not> distinct (map trx_to (snd (seed_payout_fees chain_accepts cfg_fee_10 ''F'' 30 planned_ABC)))
   \<and> map fst (spec_under_funded cfg_fee_10 planned_ABC) = [''A'', ''B'']"
  by (simp add: sent_requests need_seeding_planned trx_to_seed_request spec_under_funded_planned
      tx_fee_10 acc_A_def acc_B_def)

subsection \<open>Claim C6\<close>

lemma seed_results:
  assumes "\<not> balance < of_nat (length (accounts_need_seeding cfg s)) * TX_FEE cfg"
  shows "seed_payout_fees ch cfg fee_deposit_public balance s =
     (Inr (map (\<lambda>(k, acc). seed ch cfg fee_deposit_public k acc) (enumerate 0 (accounts_need_seeding cfg s))),
      map (seed_request cfg fee_deposit_public) (accounts_need_seeding cfg s))"
  using assms by (simp add: seed_payout_fees_def Let_def)

text \<open>
  Claim C6, as amended. When the precondition on the fee-deposit balance holds,
  \<^verbatim>\<open>seed_payout_fees\<close> returns a list with exactly one entry per element of
  \<^verbatim>\<open>accounts_need_seeding\<close>, in that order, whatever the outcomes of the attempts, and
  every element's transfer is handed to the chain client. The entry of an attempt that
  succeeds is \<^verbatim>\<open>{'addr': acc, 'txid': ...}\<close>; the entry of an attempt that raises is
  \<^verbatim>\<open>None\<close>, which names no address: the failed attempt is known by its position only.
\<close>

theorem seeding_failures_do_not_abort:
  assumes "\<not> balance < of_nat (length (accounts_need_seeding cfg s)) * TX_FEE cfg"
  shows "\<exists>results.
           seed_payout_fees ch cfg fee_deposit_public balance s =
             (Inr results, map (seed_request cfg fee_deposit_public) (accounts_need_seeding cfg s))
         \<and> length results = length (accounts_need_seeding cfg s)
         \<and> (\<forall>k<length (accounts_need_seeding cfg s).
              results ! k =
                (case ch k (seed_request cfg fee_deposit_public (accounts_need_seeding cfg s ! k)) of
                   Some tx \<Rightarrow> Some \<lparr>r_addr = accounts_need_seeding cfg s ! k, txid = tx\<rparr>
                 | None \<Rightarrow> None))"
proof -
  let ?need = "accounts_need_seeding cfg s"
  let ?results = "map (\<lambda>(k, acc). seed ch cfg fee_deposit_public k acc) (enumerate 0 ?need)"
  have "\<forall>k<length ?need. ?results ! k =
          (case ch k (seed_request cfg fee_deposit_public (?need ! k)) of
             Some tx \<Rightarrow> Some \<lparr>r_addr = ?need ! k, txid = tx\<rparr> | None \<Rightarrow> None)"
    by (simp add: nth_enumerate_eq seed_def)
  moreover have "length ?results = length ?need" by simp
  ultimately show ?thesis using seed_results[OF assms, of ch fee_deposit_public] by blast
qed

theorem seeding_failures_do_not_abort_witness:
  "seed_payout_fees chain_rejects_B cfg_fee_10 ''F'' 30 planned_ABC =
     (Inr [Some \<lparr>r_addr = acc_A, txid = ''txid''\<rparr>, None, None],
      [\<lparr>trx_from = ''F'', trx_to = ''A'', trx_amount = 10000000\<rparr>,
       \<lparr>trx_from = ''F'', trx_to = ''B'', trx_amount = 5000000\<rparr>,
       \<lparr>trx_from = ''F'', trx_to = ''B'', trx_amount = 5000000\<rparr>])"
proof -
  have ok: "\<not> (30::rat) < of_nat (length (accounts_need_seeding cfg_fee_10 planned_ABC)) * TX_FEE cfg_fee_10"
    by (simp add: need_seeding_planned tx_fee_10)
  obtain results where r: "seed_payout_fees chain_rejects_B cfg_fee_10 ''F'' 30 planned_ABC =
             (Inr results, map (seed_request cfg_fee_10 ''F'') (accounts_need_seeding cfg_fee_10 planned_ABC))"
    using seeding_failures_do_not_abort[OF ok, of chain_rejects_B "''F''"] by blast
  then show ?thesis
    by (simp add: seed_payout_fees_def need_seeding_planned seed_def seed_request_def py_int_def
        chain_rejects_B_def tx_fee_10 acc_A_def acc_B_def Let_def)
qed

text \<open>
  The claim as stated has a failed attempt recorded with its address. The failed
  attempts for A and for B leave the same entry, \<^verbatim>\<open>None\<close>.
\<close>

theorem failed_seeding_entry_counterexample:
  "fst (seed_payout_fees chain_rejects cfg_fee_10 ''F'' 30 planned_ABC) = Inr [None, None, None]
   \<and> map addr (accounts_need_seeding cfg_fee_10 planned_ABC) = [''A'', ''B'', ''B'']
   \<and> seed chain_rejects cfg_fee_10 ''F'' 0 acc_A = seed chain_rejects cfg_fee_10 ''F'' 1 acc_B
   \<and> addr acc_A \<noteq> addr acc_B"
  by (simp add: seed_payout_fees_def need_seeding_planned seed_def chain_rejects_def
      tx_fee_10 acc_A_def acc_B_def Let_def)

end
